theory Spec2Isabelle
  imports Main
begin

section \<open>Style replicator (packages/core/src/utils.ts)\<close>

text \<open>
  A stylesheet of the source document, as far as \<^verbatim>\<open>copyDocumentStylesToWindow\<close> reads it:
  \<^item> \<open>cssRules\<close>: the \<^verbatim>\<open>cssText\<close> of every rule, or \<open>None\<close> when reading the rule list
    throws (a cross-origin stylesheet);
  \<^item> \<open>href\<close>: \<open>None\<close> for \<^verbatim>\<open>null\<close>;
  \<^item> \<open>mediaText\<close>: \<^verbatim>\<open>styleSheet.media.mediaText\<close>.
\<close>

record stylesheet =
  cssRules :: "string list option"
  href :: "string option"
  mediaText :: string

text \<open>
  The elements the function creates. A link element whose \<^verbatim>\<open>media\<close> was never assigned has
  \<open>media = None\<close>.
\<close>

datatype element =
    StyleElement (textContent: string)
  | LinkElement (rel: string) (link_href: string) (media: "string option")

text \<open>\<^verbatim>\<open>Array.prototype.join\<close> on an array of strings.\<close>

fun js_join :: "string \<Rightarrow> string list \<Rightarrow> string" where
  "js_join sep [] = []"
| "js_join sep [x] = x"
| "js_join sep (x # y # ys) = x @ sep @ js_join sep (y # ys)"

text \<open>Truthiness of a string-or-null value: \<^verbatim>\<open>null\<close> and the empty string are falsy.\<close>

fun truthy_string :: "string option \<Rightarrow> bool" where
  "truthy_string None = False"
| "truthy_string (Some s) = (s \<noteq> [])"

text \<open>
  The body of the \<^verbatim>\<open>for\<close> loop, for one stylesheet: the \<^verbatim>\<open>try\<close> block appends a style
  element; the \<^verbatim>\<open>catch\<close> block appends a link element when \<^verbatim>\<open>styleSheet.href\<close> is truthy.
  The second argument is the child list of \<^verbatim>\<open>targetWindow.document.head\<close>.
\<close>

definition copy_stylesheet :: "stylesheet \<Rightarrow> element list \<Rightarrow> element list" where
  "copy_stylesheet styleSheet head =
     (case cssRules styleSheet of
        Some rules \<Rightarrow> head @ [StyleElement (js_join [CHR 0x0A] rules)]
      | None \<Rightarrow>
          (if truthy_string (href styleSheet)
           then head @ [LinkElement ''stylesheet'' (the (href styleSheet))
                          (if mediaText styleSheet \<noteq> [] then Some (mediaText styleSheet)
                           else None)]
           else head))"

fun copyDocumentStylesToWindow :: "stylesheet list \<Rightarrow> element list \<Rightarrow> element list" where
  "copyDocumentStylesToWindow [] head = head"
| "copyDocumentStylesToWindow (styleSheet # styleSheets) head =
     copyDocumentStylesToWindow styleSheets (copy_stylesheet styleSheet head)"

text \<open>
  The specification's description of the replicator, in its own words: what one stylesheet
  contributes to the target head.
\<close>

definition has_href :: "stylesheet \<Rightarrow> bool" where
  "has_href s = (case href s of None \<Rightarrow> False | Some h \<Rightarrow> h \<noteq> [])"

definition readable :: "stylesheet \<Rightarrow> bool" where
  "readable s = (cssRules s \<noteq> None)"

definition spec_contribution :: "stylesheet \<Rightarrow> element list" where
  "spec_contribution s =
     (if readable s then [StyleElement (js_join [CHR 0x0A] (the (cssRules s)))]
      else if has_href s
        then [LinkElement ''stylesheet'' (the (href s))
                (if mediaText s = [] then None else Some (mediaText s))]
        else [])"

section \<open>Window lifecycle controller (class PictureInPictureWindow)\<close>

subsection \<open>Values\<close>

text \<open>\<^verbatim>\<open>PictureInPictureWindowEventType = 'open' | 'close' | 'statechange'\<close>\<close>

datatype evtype = EvOpen | EvClose | EvStatechange

text \<open>
  Objects are modelled by their identity: a \<^verbatim>\<open>Window\<close>, a listener function and a callback
  function are natural numbers. JavaScript numbers are only passed through to the platform,
  never computed with, and are modelled as integers.
\<close>

type_synonym win = nat
type_synonym lid = nat

text \<open>
  \<^verbatim>\<open>PictureInPictureWindowOptions\<close>: every property is optional; \<open>None\<close> is
  \<^verbatim>\<open>undefined\<close>. \<open>onOpen\<close> and \<open>onClose\<close> hold the identity of the callback.
\<close>

record pip_options =
  width :: "int option"
  height :: "int option"
  disallowReturnToOpener :: "bool option"
  copyStyles :: "bool option"
  onOpen :: "nat option"
  onClose :: "nat option"

text \<open>
  An object that is spread over the options (\<^verbatim>\<open>{ ...a, ...b }\<close>): a property is either not
  an own property of the object (\<open>None\<close>) or present with a value that may be
  \<^verbatim>\<open>undefined\<close> (\<open>Some None\<close>).
\<close>

record options_patch =
  p_width :: "int option option"
  p_height :: "int option option"
  p_disallowReturnToOpener :: "bool option option"
  p_copyStyles :: "bool option option"
  p_onOpen :: "nat option option"
  p_onClose :: "nat option option"

definition overwrite :: "'a \<Rightarrow> 'a option \<Rightarrow> 'a" where
  "overwrite old new = (case new of None \<Rightarrow> old | Some v \<Rightarrow> v)"

definition spread :: "pip_options \<Rightarrow> options_patch \<Rightarrow> pip_options" where
  "spread base p =
     \<lparr> width = overwrite (width base) (p_width p),
       height = overwrite (height base) (p_height p),
       disallowReturnToOpener = overwrite (disallowReturnToOpener base) (p_disallowReturnToOpener p),
       copyStyles = overwrite (copyStyles base) (p_copyStyles p),
       onOpen = overwrite (onOpen base) (p_onOpen p),
       onClose = overwrite (onClose base) (p_onClose p) \<rparr>"

text \<open>\<^verbatim>\<open>DocumentPictureInPictureOptions\<close> as passed to \<^verbatim>\<open>requestWindow\<close>; \<open>None\<close>: property not set.\<close>

record request_options =
  ro_disallowReturnToOpener :: "bool option"
  ro_width :: "int option"
  ro_height :: "int option"

text \<open>\<^verbatim>\<open>PictureInPictureWindowState\<close>, the snapshot handed to listeners.\<close>

record snapshot =
  s_isSupported :: bool
  s_isOpen :: bool
  s_pipWindow :: "win option"

subsection \<open>The environment\<close>

text \<open>
  The global \<^verbatim>\<open>window\<close>: undefined, or an object whose \<^verbatim>\<open>documentPictureInPicture\<close>
  property is missing, present with a falsy value, or the capability object. The
  environment also holds \<^verbatim>\<open>document.styleSheets\<close>.
\<close>

datatype dpip_property = Missing | Falsy | Capability

datatype global_window = NoWindow | Window dpip_property

record env =
  window :: global_window
  styleSheets :: "stylesheet list"

text \<open>\<^verbatim>\<open>typeof window !== 'undefined' && 'documentPictureInPicture' in window\<close>\<close>

definition isDocumentPipSupported :: "env \<Rightarrow> bool" where
  "isDocumentPipSupported E =
     (case window E of NoWindow \<Rightarrow> False | Window p \<Rightarrow> p \<noteq> Missing)"

text \<open>The guard \<^verbatim>\<open>this.isSupported && window.documentPictureInPicture\<close>.\<close>

definition capability_present :: "env \<Rightarrow> bool" where
  "capability_present E =
     (isDocumentPipSupported E \<and>
      (case window E of NoWindow \<Rightarrow> False | Window p \<Rightarrow> p = Capability))"

subsection \<open>Observable effects\<close>

text \<open>
  Every call the controller makes on the platform, and every invocation of a user callback,
  is appended to a trace.
\<close>

datatype effect =
    RequestWindow request_options
  | AddEnterListener
  | RemoveEnterListener
  | AddPageHideListener win
  | RemovePageHideListener win
  | WindowClose win
  | WindowResizeTo win int int
  | WindowResizeBy win int int
  | OpenerFocus
  | ConsoleError
  | OnOpenCalled nat win
  | OnCloseCalled nat
  | ListenerCalled lid evtype snapshot

text \<open>
  What user code (a listener, \<open>onOpen\<close>, \<open>onClose\<close>) does when it runs: a sequence of
  synchronous calls on the controller, possibly ending in a thrown error.
  \<open>CallUnsubscribe\<close> is a call of the function returned by \<^verbatim>\<open>on(type, listener)\<close>.
\<close>

datatype call =
    CallOn evtype lid
  | CallOff evtype lid
  | CallUnsubscribe evtype lid
  | CallOpen
  | CallClose
  | CallResize int int
  | CallResizeBy int int
  | CallFocusOpener
  | CallCopyStylesToWindow win
  | CallUpdateOptions options_patch
  | CallDispose
  | ThrowError

record bodies =
  listener_body :: "lid \<Rightarrow> snapshot \<Rightarrow> call list"
  onOpen_body :: "nat \<Rightarrow> win \<Rightarrow> call list"
  onClose_body :: "nat \<Rightarrow> call list"

text \<open>How a piece of code completes: it returns a value, or it throws.\<close>

datatype 'a completion = Return 'a | Throw

subsection \<open>JavaScript Set\<close>

text \<open>
  A \<^verbatim>\<open>Set\<close> is its list of entries in insertion order; \<^verbatim>\<open>delete\<close> replaces an entry by
  the empty marker \<open>None\<close> and never shifts the others, \<^verbatim>\<open>add\<close> appends unless the value is
  present. An iterator is an index into this list and reads the list anew at every step.
\<close>

definition set_add :: "lid \<Rightarrow> lid option list \<Rightarrow> lid option list" where
  "set_add l es = (if Some l \<in> set es then es else es @ [Some l])"

definition set_delete :: "lid \<Rightarrow> lid option list \<Rightarrow> lid option list" where
  "set_delete l es = map (\<lambda>e. if e = Some l then None else e) es"

fun live :: "lid option list \<Rightarrow> lid list" where
  "live [] = []"
| "live (None # es) = live es"
| "live (Some l # es) = l # live es"

subsection \<open>State\<close>

text \<open>
  The fields of the controller (\<open>options\<close>, \<open>pipWindow\<close>, \<open>isOpen\<close>, \<open>listeners\<close>), the
  store of \<^verbatim>\<open>Set\<close> objects the \<open>listeners\<close> map refers to, and the part of the platform the
  controller acts on: whether its \<open>enter\<close> handler is registered on the capability object,
  the windows its \<open>pagehide\<close> handler is registered on, the children of each window's
  document head, and the trace.
\<close>

record world =
  options :: pip_options
  pipWindow :: "win option"
  isOpen :: bool
  listeners :: "evtype \<Rightarrow> nat option"
  setStore :: "nat \<Rightarrow> lid option list"
  nextSet :: nat
  enterListening :: bool
  pageHideListening :: "win set"
  heads :: "win \<Rightarrow> element list"
  trace :: "effect list"

definition did :: "effect list \<Rightarrow> world \<Rightarrow> world" where
  "did es w = w\<lparr>trace := trace w @ es\<rparr>"

subsection \<open>Constructor and getters\<close>

definition construct :: "env \<Rightarrow> options_patch \<Rightarrow> (win \<Rightarrow> element list) \<Rightarrow> world" where
  "construct E opts hs =
     \<lparr> options = spread \<lparr> width = None, height = None, disallowReturnToOpener = Some False,
                            copyStyles = Some True, onOpen = None, onClose = None \<rparr> opts,
       pipWindow = None,
       isOpen = False,
       listeners = (\<lambda>_. None),
       setStore = (\<lambda>_. []),
       nextSet = 0,
       enterListening = capability_present E,
       pageHideListening = {},
       heads = hs,
       trace = (if capability_present E then [AddEnterListener] else []) \<rparr>"

definition state :: "env \<Rightarrow> world \<Rightarrow> snapshot" where
  "state E w =
     \<lparr> s_isSupported = isDocumentPipSupported E, s_isOpen = isOpen w, s_pipWindow = pipWindow w \<rparr>"

subsection \<open>Subscription\<close>

definition on :: "evtype \<Rightarrow> lid \<Rightarrow> world \<Rightarrow> world" where
  "on ty l w =
     (let w1 = (if listeners w ty = None
                then w\<lparr>listeners := (listeners w)(ty \<mapsto> nextSet w),
                       setStore := (setStore w)(nextSet w := []),
                       nextSet := Suc (nextSet w)\<rparr>
                else w)
      in case listeners w1 ty of
           None \<Rightarrow> w1
         | Some r \<Rightarrow> w1\<lparr>setStore := (setStore w1)(r := set_add l (setStore w1 r))\<rparr>)"

definition off :: "evtype \<Rightarrow> lid \<Rightarrow> world \<Rightarrow> world" where
  "off ty l w =
     (case listeners w ty of
        None \<Rightarrow> w
      | Some r \<Rightarrow> w\<lparr>setStore := (setStore w)(r := set_delete l (setStore w r))\<rparr>)"

text \<open>The function returned by \<^verbatim>\<open>on(type, listener)\<close>.\<close>

definition unsubscribe :: "evtype \<Rightarrow> lid \<Rightarrow> world \<Rightarrow> world" where
  "unsubscribe ty l w =
     (case listeners w ty of
        None \<Rightarrow> w
      | Some r \<Rightarrow> w\<lparr>setStore := (setStore w)(r := set_delete l (setStore w r))\<rparr>)"

subsection \<open>Synchronous public methods\<close>

definition close :: "world \<Rightarrow> world" where
  "close w = (case pipWindow w of None \<Rightarrow> w | Some x \<Rightarrow> did [WindowClose x] w)"

definition resize :: "int \<Rightarrow> int \<Rightarrow> world \<Rightarrow> world" where
  "resize width' height' w =
     (case pipWindow w of None \<Rightarrow> w | Some x \<Rightarrow> did [WindowResizeTo x width' height'] w)"

definition resizeBy :: "int \<Rightarrow> int \<Rightarrow> world \<Rightarrow> world" where
  "resizeBy deltaWidth deltaHeight w =
     (case pipWindow w of None \<Rightarrow> w | Some x \<Rightarrow> did [WindowResizeBy x deltaWidth deltaHeight] w)"

definition focusOpener :: "env \<Rightarrow> world \<Rightarrow> world" where
  "focusOpener E w = (if window E \<noteq> NoWindow then did [OpenerFocus] w else w)"

definition copyStylesToWindow :: "env \<Rightarrow> win \<Rightarrow> world \<Rightarrow> world" where
  "copyStylesToWindow E targetWindow w =
     w\<lparr>heads := (heads w)(targetWindow :=
          copyDocumentStylesToWindow (styleSheets E) (heads w targetWindow))\<rparr>"

definition updateOptions :: "options_patch \<Rightarrow> world \<Rightarrow> world" where
  "updateOptions opts w = w\<lparr>options := spread (options w) opts\<rparr>"

definition dispose :: "env \<Rightarrow> world \<Rightarrow> world" where
  "dispose E w =
     (let w1 = (case pipWindow w of
                  None \<Rightarrow> w
                | Some x \<Rightarrow>
                    did [RemovePageHideListener x, WindowClose x]
                      (w\<lparr>pageHideListening := pageHideListening w - {x}\<rparr>));
          w2 = (if capability_present E
                then did [RemoveEnterListener] (w1\<lparr>enterListening := False\<rparr>)
                else w1)
      in w2\<lparr>pipWindow := None, isOpen := False, listeners := (\<lambda>_. None)\<rparr>)"

text \<open>
  \<^verbatim>\<open>open()\<close> up to its \<^verbatim>\<open>await\<close>: it has resolved already (unsupported, or a window is
  active), or it has issued the platform request and waits for the answer.
\<close>

datatype open_progress = Resolved "win option" | Awaiting

definition open_begin :: "env \<Rightarrow> world \<Rightarrow> world \<times> open_progress" where
  "open_begin E w =
     (if \<not> capability_present E then (w, Resolved None)
      else case pipWindow w of
             Some x \<Rightarrow> (w, Resolved (Some x))
           | None \<Rightarrow>
               (did [RequestWindow \<lparr> ro_disallowReturnToOpener = disallowReturnToOpener (options w),
                                     ro_width = width (options w),
                                     ro_height = height (options w) \<rparr>] w,
                Awaiting))"

subsection \<open>User code\<close>

text \<open>
  One call made by user code from inside a callback. A call of \<^verbatim>\<open>open()\<close> runs up to its
  \<^verbatim>\<open>await\<close>; the rest runs later, when the platform answers.
\<close>

fun run_call :: "env \<Rightarrow> call \<Rightarrow> world \<Rightarrow> world \<times> unit completion" where
  "run_call E (CallOn ty l) w = (on ty l w, Return ())"
| "run_call E (CallOff ty l) w = (off ty l w, Return ())"
| "run_call E (CallUnsubscribe ty l) w = (unsubscribe ty l w, Return ())"
| "run_call E CallOpen w = (fst (open_begin E w), Return ())"
| "run_call E CallClose w = (close w, Return ())"
| "run_call E (CallResize a b) w = (resize a b w, Return ())"
| "run_call E (CallResizeBy a b) w = (resizeBy a b w, Return ())"
| "run_call E CallFocusOpener w = (focusOpener E w, Return ())"
| "run_call E (CallCopyStylesToWindow x) w = (copyStylesToWindow E x w, Return ())"
| "run_call E (CallUpdateOptions p) w = (updateOptions p w, Return ())"
| "run_call E CallDispose w = (dispose E w, Return ())"
| "run_call E ThrowError w = (w, Throw)"

fun run_script :: "env \<Rightarrow> call list \<Rightarrow> world \<Rightarrow> world \<times> unit completion" where
  "run_script E [] w = (w, Return ())"
| "run_script E (c # cs) w =
     (case run_call E c w of
        (w1, Throw) \<Rightarrow> (w1, Throw)
      | (w1, Return _) \<Rightarrow> run_script E cs w1)"

subsection \<open>Event emitter\<close>

text \<open>
  The loop \<^verbatim>\<open>for (const listener of listeners) listener(state)\<close> over the Set object
  \<open>r\<close>, at iterator position \<open>i\<close>. A listener may add listeners to the set it is called
  from, so the loop need not end: not returning is the value \<open>None\<close>.
\<close>

partial_function (option) emit_loop ::
  "env \<Rightarrow> bodies \<Rightarrow> evtype \<Rightarrow> snapshot \<Rightarrow> nat \<Rightarrow> nat \<Rightarrow> world \<Rightarrow> (world \<times> unit completion) option"
where
  "emit_loop E B ty st r i w =
     (if i < length (setStore w r) then
        (case setStore w r ! i of
           None \<Rightarrow> emit_loop E B ty st r (Suc i) w
         | Some l \<Rightarrow>
             (case run_script E (listener_body B l st) (did [ListenerCalled l ty st] w) of
                (w1, Throw) \<Rightarrow> Some (w1, Throw)
              | (w1, Return _) \<Rightarrow> emit_loop E B ty st r (Suc i) w1))
      else Some (w, Return ()))"

declare emit_loop.simps [code]

definition emit :: "env \<Rightarrow> bodies \<Rightarrow> evtype \<Rightarrow> world \<Rightarrow> (world \<times> unit completion) option" where
  "emit E B ty w =
     (case listeners w ty of
        None \<Rightarrow> Some (w, Return ())
      | Some r \<Rightarrow> emit_loop E B ty (state E w) r 0 w)"

text \<open>Statement sequencing: a throw, or a loop that does not end, skips what follows.\<close>

definition and_then ::
  "(world \<times> unit completion) option \<Rightarrow> (world \<Rightarrow> (world \<times> 'a completion) option)
     \<Rightarrow> (world \<times> 'a completion) option" where
  "and_then m f =
     (case m of
        None \<Rightarrow> None
      | Some (w, Throw) \<Rightarrow> Some (w, Throw)
      | Some (w, Return _) \<Rightarrow> f w)"

subsection \<open>Event handlers\<close>

definition call_onClose :: "env \<Rightarrow> bodies \<Rightarrow> world \<Rightarrow> world \<times> unit completion" where
  "call_onClose E B w =
     (case onClose (options w) of
        None \<Rightarrow> (w, Return ())
      | Some f \<Rightarrow> run_script E (onClose_body B f) (did [OnCloseCalled f] w))"

definition call_onOpen :: "env \<Rightarrow> bodies \<Rightarrow> win \<Rightarrow> world \<Rightarrow> world \<times> unit completion" where
  "call_onOpen E B newWindow w =
     (case onOpen (options w) of
        None \<Rightarrow> (w, Return ())
      | Some f \<Rightarrow> run_script E (onOpen_body B f newWindow) (did [OnOpenCalled f newWindow] w))"

definition handlePageHide :: "env \<Rightarrow> bodies \<Rightarrow> world \<Rightarrow> (world \<times> unit completion) option" where
  "handlePageHide E B w =
     and_then (Some (call_onClose E B (w\<lparr>isOpen := False, pipWindow := None\<rparr>)))
       (\<lambda>w1. and_then (emit E B EvClose w1) (emit E B EvStatechange))"

definition handleEnter :: "env \<Rightarrow> bodies \<Rightarrow> win \<Rightarrow> world \<Rightarrow> (world \<times> unit completion) option" where
  "handleEnter E B event_window w =
     and_then (emit E B EvOpen (w\<lparr>pipWindow := Some event_window, isOpen := True\<rparr>))
       (emit E B EvStatechange)"

subsection \<open>The rest of \<^verbatim>\<open>open()\<close>\<close>

datatype response = Resolve win | Reject

text \<open>The \<^verbatim>\<open>try\<close> block from the point where \<^verbatim>\<open>requestWindow\<close> has resolved.\<close>

definition open_try ::
  "env \<Rightarrow> bodies \<Rightarrow> win \<Rightarrow> world \<Rightarrow> (world \<times> win option completion) option" where
  "open_try E B newWindow w =
     (let w1 = did [AddPageHideListener newWindow]
                 (w\<lparr>pageHideListening := insert newWindow (pageHideListening w)\<rparr>);
          w2 = (if copyStyles (options w1) = Some True
                then copyStylesToWindow E newWindow w1 else w1);
          w3 = w2\<lparr>pipWindow := Some newWindow, isOpen := True\<rparr>
      in and_then (Some (call_onOpen E B newWindow w3))
           (\<lambda>w4. and_then (emit E B EvOpen w4)
              (\<lambda>w5. and_then (emit E B EvStatechange w5)
                 (\<lambda>w6. Some (w6, Return (Some newWindow))))))"

text \<open>The \<^verbatim>\<open>catch\<close> block: log, and resolve to \<^verbatim>\<open>undefined\<close>.\<close>

definition catch ::
  "(world \<times> win option completion) option \<Rightarrow> (world \<times> win option completion) option" where
  "catch m =
     (case m of
        None \<Rightarrow> None
      | Some (w, Throw) \<Rightarrow> Some (did [ConsoleError] w, Return None)
      | Some (w, Return v) \<Rightarrow> Some (w, Return v))"

definition open_resume ::
  "env \<Rightarrow> bodies \<Rightarrow> response \<Rightarrow> world \<Rightarrow> (world \<times> win option completion) option" where
  "open_resume E B answer w =
     (case answer of
        Reject \<Rightarrow> catch (Some (w, Throw))
      | Resolve newWindow \<Rightarrow> catch (open_try E B newWindow w))"

text \<open>\<^verbatim>\<open>open()\<close> when nothing else runs between the request and the platform's answer.\<close>

definition open_window ::
  "env \<Rightarrow> bodies \<Rightarrow> response \<Rightarrow> world \<Rightarrow> (world \<times> win option completion) option" where
  "open_window E B answer w =
     (case open_begin E w of
        (w1, Resolved result) \<Rightarrow> Some (w1, Return result)
      | (w1, Awaiting) \<Rightarrow> open_resume E B answer w1)"

subsection \<open>The platform delivering events\<close>

text \<open>
  A \<open>pagehide\<close> event of window \<open>x\<close> runs the handler only if it is registered on \<open>x\<close>, and
  the registration (\<^verbatim>\<open>{ once: true }\<close>) is used up; an \<open>enter\<close> event runs the handler
  only while it is registered on the capability object.
\<close>

definition fire_pagehide ::
  "env \<Rightarrow> bodies \<Rightarrow> win \<Rightarrow> world \<Rightarrow> (world \<times> unit completion) option" where
  "fire_pagehide E B x w =
     (if x \<in> pageHideListening w
      then handlePageHide E B (w\<lparr>pageHideListening := pageHideListening w - {x}\<rparr>)
      else Some (w, Return ()))"

definition fire_enter ::
  "env \<Rightarrow> bodies \<Rightarrow> win \<Rightarrow> world \<Rightarrow> (world \<times> unit completion) option" where
  "fire_enter E B x w =
     (if enterListening w then handleEnter E B x w else Some (w, Return ()))"

subsection \<open>Vocabulary of the properties\<close>

text \<open>The invariant of the data model: a window is held exactly when \<open>isOpen\<close> is true.\<close>

definition consistent :: "world \<Rightarrow> bool" where
  "consistent w = ((pipWindow w \<noteq> None) = isOpen w)"


text \<open>The listener invocations of a trace, and the event kinds delivered to one listener.\<close>

fun is_invocation :: "effect \<Rightarrow> bool" where
  "is_invocation (ListenerCalled l ty st) = True"
| "is_invocation _ = False"

definition invocations :: "effect list \<Rightarrow> effect list" where
  "invocations tr = filter is_invocation tr"

fun delivered :: "lid \<Rightarrow> effect \<Rightarrow> evtype list" where
  "delivered l (ListenerCalled l' ty st) = (if l' = l then [ty] else [])"
| "delivered l _ = []"

definition deliveries :: "lid \<Rightarrow> effect list \<Rightarrow> evtype list" where
  "deliveries l tr = concat (map (delivered l) tr)"

text \<open>
  Kinds of calls made by user code: a quiet call leaves the listener registry alone and does
  not throw; a call that unsubscribes \<open>l\<close> is \<^verbatim>\<open>off(type, l)\<close> or the function returned by
  \<^verbatim>\<open>on(type, l)\<close>.
\<close>

fun quiet :: "call \<Rightarrow> bool" where
  "quiet (CallOn ty l) = False"
| "quiet (CallOff ty l) = False"
| "quiet (CallUnsubscribe ty l) = False"
| "quiet CallDispose = False"
| "quiet ThrowError = False"
| "quiet _ = True"

fun unsubscribes :: "lid \<Rightarrow> call \<Rightarrow> bool" where
  "unsubscribes l (CallOff ty l') = (l' = l)"
| "unsubscribes l (CallUnsubscribe ty l') = (l' = l)"
| "unsubscribes l _ = False"

definition benign :: "lid \<Rightarrow> call \<Rightarrow> bool" where
  "benign l c = (quiet c \<or> unsubscribes l c)"


text \<open>Reading the outcome of an operation that may not return.\<close>

definition result_of :: "(world \<times> 'a completion) option \<Rightarrow> 'a completion option" where
  "result_of m = map_option snd m"

definition world_after :: "(world \<times> 'a completion) option \<Rightarrow> world option" where
  "world_after m = map_option fst m"


subsection \<open>Runs of the controller\<close>

text \<open>
  What can happen to a controller: a call of a public method, the two halves of \<^verbatim>\<open>open()\<close>
  with other steps in between, the two event handlers called by the platform, and the
  platform's events as dispatched to registered handlers. A step whose callbacks throw
  leaves the world as it was when the error was thrown.
\<close>

datatype step =
    DoOpen response
  | DoOpenBegin
  | DoOpenResume response
  | DoClose
  | DoResize int int
  | DoResizeBy int int
  | DoFocusOpener
  | DoCopyStylesToWindow win
  | DoUpdateOptions options_patch
  | DoOn evtype lid
  | DoOff evtype lid
  | DoUnsubscribe evtype lid
  | DoDispose
  | PageHideHandler
  | EnterHandler win
  | PageHideEvent win
  | EnterEvent win

fun do_step :: "env \<Rightarrow> bodies \<Rightarrow> step \<Rightarrow> world \<Rightarrow> world option" where
  "do_step E B (DoOpen answer) w = world_after (open_window E B answer w)"
| "do_step E B DoOpenBegin w = Some (fst (open_begin E w))"
| "do_step E B (DoOpenResume answer) w = world_after (open_resume E B answer w)"
| "do_step E B DoClose w = Some (close w)"
| "do_step E B (DoResize a b) w = Some (resize a b w)"
| "do_step E B (DoResizeBy a b) w = Some (resizeBy a b w)"
| "do_step E B DoFocusOpener w = Some (focusOpener E w)"
| "do_step E B (DoCopyStylesToWindow x) w = Some (copyStylesToWindow E x w)"
| "do_step E B (DoUpdateOptions p) w = Some (updateOptions p w)"
| "do_step E B (DoOn ty l) w = Some (on ty l w)"
| "do_step E B (DoOff ty l) w = Some (off ty l w)"
| "do_step E B (DoUnsubscribe ty l) w = Some (unsubscribe ty l w)"
| "do_step E B DoDispose w = Some (dispose E w)"
| "do_step E B PageHideHandler w = world_after (handlePageHide E B w)"
| "do_step E B (EnterHandler x) w = world_after (handleEnter E B x w)"
| "do_step E B (PageHideEvent x) w = world_after (fire_pagehide E B x w)"
| "do_step E B (EnterEvent x) w = world_after (fire_enter E B x w)"

fun run :: "(env \<times> bodies \<times> step) list \<Rightarrow> world \<Rightarrow> world option" where
  "run [] w = Some w"
| "run ((E, B, a) # rest) w =
     (case do_step E B a w of None \<Rightarrow> None | Some w1 \<Rightarrow> run rest w1)"



subsection \<open>Concrete inputs\<close>

definition example_env :: env where
  "example_env = \<lparr> window = Window Capability, styleSheets = [] \<rparr>"

definition no_options :: options_patch where
  "no_options = \<lparr> p_width = None, p_height = None, p_disallowReturnToOpener = None,
                   p_copyStyles = None, p_onOpen = None, p_onClose = None \<rparr>"

definition idle_bodies :: bodies where
  "idle_bodies =
     \<lparr> listener_body = (\<lambda>l st. []), onOpen_body = (\<lambda>f x. []), onClose_body = (\<lambda>f. []) \<rparr>"

definition empty_heads :: "win \<Rightarrow> element list" where
  "empty_heads = (\<lambda>x. [])"

definition fresh_controller :: world where
  "fresh_controller = construct example_env no_options empty_heads"

definition opened_controller :: world where
  "opened_controller =
     fresh_controller\<lparr> pipWindow := Some 7, isOpen := True, pageHideListening := {7},
       trace := [AddEnterListener,
                 RequestWindow \<lparr> ro_disallowReturnToOpener = Some False, ro_width = None, ro_height = None \<rparr>,
                 AddPageHideListener 7] \<rparr>"


definition self_removing_bodies :: bodies where
  "self_removing_bodies =
     \<lparr> listener_body = (\<lambda>l st. if l = 2 then [CallOff EvOpen 2]
                               else if l = 3 then [CallUnsubscribe EvOpen 3] else []),
       onOpen_body = (\<lambda>f x. []), onClose_body = (\<lambda>f. []) \<rparr>"

definition three_listeners :: world where
  "three_listeners = on EvOpen 3 (on EvOpen 2 (on EvOpen 1 fresh_controller))"

definition example_run :: "(env \<times> bodies \<times> step) list" where
  "example_run =
     [(example_env, idle_bodies, DoOn EvStatechange 3),
      (example_env, idle_bodies, DoOpen (Resolve 7)),
      (example_env, idle_bodies, DoResize 640 480),
      (example_env, idle_bodies, DoClose),
      (example_env, idle_bodies, PageHideEvent 7),
      (example_env, idle_bodies, EnterEvent 8)]"

definition example_sheets :: "stylesheet list" where
  "example_sheets =
     [\<lparr> cssRules = Some [''.a{color:red}'', ''.b{color:blue}''], href = None, mediaText = [] \<rparr>,
      \<lparr> cssRules = None, href = Some ''https://cdn.example/x.css'', mediaText = ''print'' \<rparr>,
      \<lparr> cssRules = None, href = None, mediaText = [] \<rparr>]"











section \<open>Lemmas on user code and the event emitter\<close>

lemma run_script_preserves:
  assumes "\<And>c w. P w \<Longrightarrow> P (fst (run_call E c w))" and "P w"
  shows "P (fst (run_script E cs w))"
  using assms(2)
proof (induction cs arbitrary: w)
  case Nil
  then show ?case by simp
next
  case (Cons c cs)
  from assms(1)[OF Cons.prems, of c] Cons.IH show ?case
    by (cases "run_call E c w") (auto split: completion.splits)
qed

lemma emit_loop_preserves_aux:
  assumes call: "\<And>c w. P w \<Longrightarrow> P (fst (run_call E c w))"
    and called: "\<And>l w. P w \<Longrightarrow> P (did [ListenerCalled l ty st] w)"
    and run: "emit_loop E B ty st r i w = Some y"
  shows "P w \<longrightarrow> P (fst y)"
proof -
  have "E = E \<longrightarrow> ty = ty \<longrightarrow> st = st \<longrightarrow> P w \<longrightarrow> P (fst y)"
proof (rule emit_loop.raw_induct
    [where P = "\<lambda>E' B ty' st' r i w y. E' = E \<longrightarrow> ty' = ty \<longrightarrow> st' = st \<longrightarrow> P w \<longrightarrow> P (fst y)",
      OF _ run], goal_cases)
  case (1 loop E' B ty' st' r i w y)
  show ?case
  proof (intro impI)
    assume eqs: "E' = E" "ty' = ty" "st' = st" and Pw: "P w"
    note IH = 1(1)[rule_format, OF _ eqs]
    show "P (fst y)"
    proof (cases "i < length (setStore w r)")
      case False
      with 1(2) Pw show ?thesis by auto
    next
      case inrange: True
      show ?thesis
      proof (cases "setStore w r ! i")
        case None
        with 1(2) inrange IH Pw show ?thesis by simp
      next
        case (Some l)
        obtain w1 c1 where
          rs: "run_script E (listener_body B l st) (did [ListenerCalled l ty st] w) = (w1, c1)"
          by fastforce
        have P1: "P w1"
          using run_script_preserves[where P = P, OF call called[OF Pw], of "listener_body B l st" l] rs
          by simp
        show ?thesis
        proof (cases c1)
          case (Return u)
          with 1(2) inrange Some rs P1 IH eqs show ?thesis by simp
        next
          case Throw
          with 1(2) inrange Some rs P1 eqs show ?thesis by auto
        qed
      qed
    qed
  qed
qed
  then show ?thesis by simp
qed

lemma emit_loop_preserves:
  assumes "\<And>c w. P w \<Longrightarrow> P (fst (run_call E c w))"
    and "\<And>l w. P w \<Longrightarrow> P (did [ListenerCalled l ty st] w)"
    and "emit_loop E B ty st r i w = Some (w', c)" and "P w"
  shows "P w'"
  using emit_loop_preserves_aux[where P = P, OF assms(1,2) assms(3)] assms(4) by simp

lemma emit_preserves:
  assumes "\<And>c w. P w \<Longrightarrow> P (fst (run_call E c w))"
    and "\<And>l st w. P w \<Longrightarrow> P (did [ListenerCalled l ty st] w)"
    and "emit E B ty w = Some (w', c)" and "P w"
  shows "P w'"
  using assms(3,4) emit_loop_preserves[where P = P, OF assms(1,2)]
  by (auto simp: emit_def split: option.splits)

lemma set_delete_length [simp]: "length (set_delete l es) = length es"
  by (simp add: set_delete_def)

lemma set_delete_idem [simp]: "set_delete l (set_delete l es) = set_delete l es"
  by (induction es) (auto simp: set_delete_def)

lemma live_set_delete: "live (set_delete l es) = filter (\<lambda>x. x \<noteq> l) (live es)"
proof (induction es)
  case Nil
  then show ?case by (simp add: set_delete_def)
next
  case (Cons e es)
  then show ?case by (cases e) (auto simp: set_delete_def)
qed

lemma set_live: "set (live es) = {l. Some l \<in> set es}"
proof (induction es)
  case Nil
  then show ?case by simp
next
  case (Cons e es)
  then show ?case by (cases e) auto
qed

lemma live_append [simp]: "live (xs @ ys) = live xs @ live ys"
proof (induction xs)
  case Nil
  then show ?case by simp
next
  case (Cons e xs)
  then show ?case by (cases e) auto
qed

lemma set_delete_absent: "Some l \<notin> set es \<Longrightarrow> set_delete l es = es"
  by (induction es) (auto simp: set_delete_def)

lemma drop_set_delete: "drop n (set_delete l es) = set_delete l (drop n es)"
  by (simp add: set_delete_def drop_map)

lemma distinct_live_tail:
  assumes "distinct (live es)" and "i < length es" and "es ! i = Some l"
  shows "Some l \<notin> set (drop (Suc i) es)"
proof -
  have "es = take i es @ Some l # drop (Suc i) es"
    using assms(2,3) by (metis id_take_nth_drop)
  then have "live es = live (take i es) @ l # live (drop (Suc i) es)"
    by (metis live_append live.simps(3))
  with assms(1) have "l \<notin> set (live (drop (Suc i) es))"
    by auto
  then show ?thesis by (simp add: set_live)
qed

lemma run_call_benign:
  assumes "benign l c"
  shows "\<exists>w1. run_call E c w = (w1, Return ()) \<and> pipWindow w1 = pipWindow w \<and> isOpen w1 = isOpen w
           \<and> listeners w1 = listeners w \<and> pageHideListening w1 = pageHideListening w
           \<and> invocations (trace w1) = invocations (trace w)
           \<and> (\<forall>r. setStore w1 r = setStore w r \<or> setStore w1 r = set_delete l (setStore w r))
           \<and> (quiet c \<longrightarrow> setStore w1 = setStore w)"
  using assms
  by (cases c)
     (auto simp: benign_def on_def off_def unsubscribe_def open_begin_def close_def resize_def
        resizeBy_def focusOpener_def copyStylesToWindow_def updateOptions_def did_def
        invocations_def split: option.splits)

lemma run_script_benign:
  assumes "list_all (benign l) cs"
  shows "\<exists>w1. run_script E cs w = (w1, Return ()) \<and> pipWindow w1 = pipWindow w \<and> isOpen w1 = isOpen w
           \<and> listeners w1 = listeners w \<and> pageHideListening w1 = pageHideListening w
           \<and> invocations (trace w1) = invocations (trace w)
           \<and> (\<forall>r. setStore w1 r = setStore w r \<or> setStore w1 r = set_delete l (setStore w r))
           \<and> (list_all quiet cs \<longrightarrow> setStore w1 = setStore w)"
  using assms
proof (induction cs arbitrary: w)
  case Nil
  then show ?case by simp
next
  case (Cons c cs)
  from Cons.prems have bc: "benign l c" and bcs: "list_all (benign l) cs" by simp_all
  from run_call_benign[OF bc, of E w] obtain w1 where
    c1: "run_call E c w = (w1, Return ())" and
    f1: "pipWindow w1 = pipWindow w" "isOpen w1 = isOpen w" "listeners w1 = listeners w"
        "pageHideListening w1 = pageHideListening w"
        "invocations (trace w1) = invocations (trace w)" and
    s1: "\<forall>r. setStore w1 r = setStore w r \<or> setStore w1 r = set_delete l (setStore w r)" and
    q1: "quiet c \<longrightarrow> setStore w1 = setStore w"
    by blast
  from Cons.IH[OF bcs, of w1] obtain w2 where
    c2: "run_script E cs w1 = (w2, Return ())" and
    f2: "pipWindow w2 = pipWindow w1" "isOpen w2 = isOpen w1" "listeners w2 = listeners w1"
        "pageHideListening w2 = pageHideListening w1"
        "invocations (trace w2) = invocations (trace w1)" and
    s2: "\<forall>r. setStore w2 r = setStore w1 r \<or> setStore w2 r = set_delete l (setStore w1 r)" and
    q2: "list_all quiet cs \<longrightarrow> setStore w2 = setStore w1"
    by blast
  have s: "\<forall>r. setStore w2 r = setStore w r \<or> setStore w2 r = set_delete l (setStore w r)"
  proof
    fix r
    from s1 s2 show "setStore w2 r = setStore w r \<or> setStore w2 r = set_delete l (setStore w r)"
      by (metis set_delete_idem)
  qed
  from c1 c2 f1 f2 s q1 q2 show ?case by simp
qed


lemma invocations_append [simp]: "invocations (xs @ ys) = invocations xs @ invocations ys"
  by (simp add: invocations_def)

lemma emit_loop_benign:
  assumes "distinct (live (setStore w r))"
    and "\<forall>l\<in>set (live (drop i (setStore w r))). list_all (benign l) (listener_body B l st)"
  shows "\<exists>w'. emit_loop E B ty st r i w = Some (w', Return ())
           \<and> pipWindow w' = pipWindow w \<and> isOpen w' = isOpen w \<and> listeners w' = listeners w
           \<and> pageHideListening w' = pageHideListening w
           \<and> invocations (trace w') =
               invocations (trace w) @ map (\<lambda>l. ListenerCalled l ty st) (live (drop i (setStore w r)))
           \<and> ((\<forall>l\<in>set (live (drop i (setStore w r))). list_all quiet (listener_body B l st))
                \<longrightarrow> setStore w' = setStore w)"
  using assms
proof (induction "length (setStore w r) - i" arbitrary: i w)
  case 0
  then have "\<not> i < length (setStore w r)" by simp
  then show ?case by (subst emit_loop.simps) simp
next
  case (Suc n)
  let ?es = "setStore w r"
  from Suc.hyps(2) have inrange: "i < length ?es" by simp
  have dropi: "drop i ?es = ?es ! i # drop (Suc i) ?es"
    using inrange by (simp add: Cons_nth_drop_Suc)
  show ?case
  proof (cases "?es ! i")
    case None
    have "n = length ?es - Suc i" using Suc.hyps(2) by simp
    from Suc.hyps(1)[OF this Suc.prems(1)] Suc.prems(2) dropi None
    obtain w' where
      "emit_loop E B ty st r (Suc i) w = Some (w', Return ())"
      "pipWindow w' = pipWindow w" "isOpen w' = isOpen w" "listeners w' = listeners w"
      "pageHideListening w' = pageHideListening w"
      "invocations (trace w') =
         invocations (trace w) @ map (\<lambda>l. ListenerCalled l ty st) (live (drop (Suc i) ?es))"
      "(\<forall>l\<in>set (live (drop (Suc i) ?es)). list_all quiet (listener_body B l st))
         \<longrightarrow> setStore w' = setStore w"
      by auto
    with inrange None dropi show ?thesis
      by (subst emit_loop.simps) simp
  next
    case (Some l)
    let ?w0 = "did [ListenerCalled l ty st] w"
    have ben: "list_all (benign l) (listener_body B l st)"
      using Suc.prems(2) dropi Some by simp
    from run_script_benign[OF ben, of E ?w0] obtain w1 where
      rs: "run_script E (listener_body B l st) ?w0 = (w1, Return ())" and
      f1: "pipWindow w1 = pipWindow w" "isOpen w1 = isOpen w" "listeners w1 = listeners w"
          "pageHideListening w1 = pageHideListening w" and
      t1: "invocations (trace w1) = invocations (trace w) @ [ListenerCalled l ty st]" and
      s1: "setStore w1 r = ?es \<or> setStore w1 r = set_delete l ?es" and
      q1: "list_all quiet (listener_body B l st) \<longrightarrow> setStore w1 = setStore w"
      by (auto simp: did_def invocations_def)
    have notail: "Some l \<notin> set (drop (Suc i) ?es)"
      using distinct_live_tail[OF Suc.prems(1) inrange Some] .
    have len1: "length (setStore w1 r) = length ?es"
      using s1 by auto
    have tail1: "drop (Suc i) (setStore w1 r) = drop (Suc i) ?es"
      using s1 notail by (auto simp: drop_set_delete set_delete_absent)
    have dist1: "distinct (live (setStore w1 r))"
      using s1 Suc.prems(1) by (auto simp: live_set_delete)
    have ben1: "\<forall>l\<in>set (live (drop (Suc i) (setStore w1 r))). list_all (benign l) (listener_body B l st)"
      using Suc.prems(2) dropi Some tail1 by simp
    have "n = length (setStore w1 r) - Suc i" using Suc.hyps(2) len1 by simp
    from Suc.hyps(1)[OF this dist1 ben1] tail1
    obtain w' where
      run': "emit_loop E B ty st r (Suc i) w1 = Some (w', Return ())" and
      f': "pipWindow w' = pipWindow w1" "isOpen w' = isOpen w1" "listeners w' = listeners w1"
          "pageHideListening w' = pageHideListening w1" and
      t': "invocations (trace w') =
             invocations (trace w1) @ map (\<lambda>l. ListenerCalled l ty st) (live (drop (Suc i) ?es))" and
      q': "(\<forall>l\<in>set (live (drop (Suc i) ?es)). list_all quiet (listener_body B l st))
             \<longrightarrow> setStore w' = setStore w1"
      by auto
    have "emit_loop E B ty st r i w = Some (w', Return ())"
      using inrange Some rs run' by (subst emit_loop.simps) simp
    moreover have "invocations (trace w') =
        invocations (trace w) @ map (\<lambda>l. ListenerCalled l ty st) (live (drop i ?es))"
      using t' t1 dropi Some by simp
    moreover have "(\<forall>l\<in>set (live (drop i ?es)). list_all quiet (listener_body B l st))
        \<longrightarrow> setStore w' = setStore w"
      using q' q1 dropi Some by simp
    ultimately show ?thesis using f' f1 by simp
  qed
qed

lemmas method_defs = close_def resize_def resizeBy_def focusOpener_def copyStylesToWindow_def
  updateOptions_def dispose_def open_begin_def on_def off_def unsubscribe_def did_def

lemmas concrete_defs = example_env_def no_options_def idle_bodies_def empty_heads_def
  fresh_controller_def construct_def spread_def overwrite_def capability_present_def
  isDocumentPipSupported_def

lemmas open_defs = open_window_def open_resume_def open_try_def catch_def and_then_def
  call_onOpen_def call_onClose_def emit_def state_def handlePageHide_def handleEnter_def
  fire_pagehide_def fire_enter_def result_of_def world_after_def



lemma deliveries_append [simp]: "deliveries l (xs @ ys) = deliveries l xs @ deliveries l ys"
  by (simp add: deliveries_def)












lemma and_then_SomeD:
  assumes "and_then m f = Some (w', c)"
  obtains w1 where "m = Some (w1, Throw)" and "w' = w1" and "c = Throw"
  | w1 u where "m = Some (w1, Return u)" and "f w1 = Some (w', c)"
  using assms by (auto simp: and_then_def split: option.splits completion.splits prod.splits)

lemma emit_twice_preserves:
  assumes call: "\<And>c w. P w \<Longrightarrow> P (fst (run_call E c w))"
    and called: "\<And>l ty st w. P w \<Longrightarrow> P (did [ListenerCalled l ty st] w)"
    and run: "and_then (emit E B ty1 w) (emit E B ty2) = Some (w', c)"
    and start: "P w"
  shows "P w'"
  using run
proof (cases rule: and_then_SomeD)
  case (1 w1)
  with emit_preserves[where P = P, OF call called _ start] show ?thesis by simp
next
  case (2 w1 u)
  from emit_preserves[where P = P, OF call called 2(1) start] have "P w1" .
  from emit_preserves[where P = P, OF call called 2(2) this] show ?thesis .
qed

lemma handleEnter_preserves:
  assumes call: "\<And>c w. P w \<Longrightarrow> P (fst (run_call E c w))"
    and called: "\<And>l ty st w. P w \<Longrightarrow> P (did [ListenerCalled l ty st] w)"
    and run: "handleEnter E B x w = Some (w', c)"
    and start: "P (w\<lparr>pipWindow := Some x, isOpen := True\<rparr>)"
  shows "P w'"
  using emit_twice_preserves[where P = P, OF call called _ start] run
  by (simp add: handleEnter_def)

lemma call_onClose_preserves:
  assumes call: "\<And>c w. P w \<Longrightarrow> P (fst (run_call E c w))"
    and called: "\<And>f w. P w \<Longrightarrow> P (did [OnCloseCalled f] w)"
    and start: "P w"
  shows "P (fst (call_onClose E B w))"
proof (cases "onClose (options w)")
  case None
  with start show ?thesis by (simp add: call_onClose_def)
next
  case (Some f)
  from run_script_preserves[where P = P, OF call called[OF start]] Some
  show ?thesis by (simp add: call_onClose_def)
qed

lemma call_onOpen_preserves:
  assumes call: "\<And>c w. P w \<Longrightarrow> P (fst (run_call E c w))"
    and called: "\<And>f x w. P w \<Longrightarrow> P (did [OnOpenCalled f x] w)"
    and start: "P w"
  shows "P (fst (call_onOpen E B x w))"
proof (cases "onOpen (options w)")
  case None
  with start show ?thesis by (simp add: call_onOpen_def)
next
  case (Some f)
  from run_script_preserves[where P = P, OF call called[OF start]] Some
  show ?thesis by (simp add: call_onOpen_def)
qed

lemma handlePageHide_preserves:
  assumes call: "\<And>c w. P w \<Longrightarrow> P (fst (run_call E c w))"
    and did: "\<And>es w. P w \<Longrightarrow> P (did es w)"
    and run: "handlePageHide E B w = Some (w', c)"
    and start: "P (w\<lparr>isOpen := False, pipWindow := None\<rparr>)"
  shows "P w'"
proof -
  let ?w0 = "w\<lparr>isOpen := False, pipWindow := None\<rparr>"
  obtain w1 c1 where oc: "call_onClose E B ?w0 = (w1, c1)" by fastforce
  have P1: "P w1"
    using call_onClose_preserves[where P = P, OF call did start, of B] oc by simp
  show ?thesis
  proof (cases c1)
    case (Return u)
    with run oc have "and_then (emit E B EvClose w1) (emit E B EvStatechange) = Some (w', c)"
      by (simp add: handlePageHide_def and_then_def)
    from emit_twice_preserves[where P = P, OF call did this P1] show ?thesis .
  next
    case Throw
    with run oc P1 show ?thesis by (simp add: handlePageHide_def and_then_def)
  qed
qed

lemma open_resume_preserves:
  assumes call: "\<And>c w. P w \<Longrightarrow> P (fst (run_call E c w))"
    and did: "\<And>es w. P w \<Longrightarrow> P (did es w)"
    and reg: "\<And>S w. P w \<Longrightarrow> P (w\<lparr>pageHideListening := S\<rparr>)"
    and opened: "\<And>x w. P w \<Longrightarrow> P (w\<lparr>pipWindow := Some x, isOpen := True\<rparr>)"
    and run: "open_resume E B answer w = Some (w', c)"
    and start: "P w"
  shows "P w'"
proof (cases answer)
  case Reject
  with run did[OF start] show ?thesis by (auto simp: open_resume_def catch_def)
next
  case (Resolve x)
  define w1 where "w1 = did [AddPageHideListener x] (w\<lparr>pageHideListening := insert x (pageHideListening w)\<rparr>)"
  define w2 where "w2 = (if copyStyles (options w1) = Some True then copyStylesToWindow E x w1 else w1)"
  define w3 where "w3 = w2\<lparr>pipWindow := Some x, isOpen := True\<rparr>"
  have P1: "P w1" unfolding w1_def by (intro did reg start)
  have P2: "P w2" using call[OF P1, of "CallCopyStylesToWindow x"] P1 by (simp add: w2_def)
  have P3: "P w3" unfolding w3_def by (intro opened P2)
  obtain w4 c4 where oc: "call_onOpen E B x w3 = (w4, c4)" by fastforce
  have P4: "P w4"
    using call_onOpen_preserves[where P = P, OF call did P3, of B x] oc by simp
  have body: "open_try E B x w =
      and_then (Some (w4, c4)) (\<lambda>w4. and_then (emit E B EvOpen w4)
         (\<lambda>w5. and_then (emit E B EvStatechange w5) (\<lambda>w6. Some (w6, Return (Some x)))))"
    by (simp add: open_try_def Let_def w1_def[symmetric] w2_def[symmetric] w3_def[symmetric] oc)
  have inner: "P v" if "open_try E B x w = Some (v, d)" for v d
    using that unfolding body
  proof (cases rule: and_then_SomeD)
    case (1 v1)
    with P4 show ?thesis by simp
  next
    case (2 v1 u)
    then have v1: "v1 = w4" by simp
    from 2(2) show ?thesis
    proof (cases rule: and_then_SomeD)
      case (1 v2)
      with emit_preserves[where P = P, OF call did _ P4] v1 show ?thesis by simp
    next
      case (2 v2 u2)
      from emit_preserves[where P = P, OF call did _ P4] 2(1) v1 have P5: "P v2" by simp
      from 2(2) show ?thesis
      proof (cases rule: and_then_SomeD)
        case (1 v3)
        with emit_preserves[where P = P, OF call did _ P5] show ?thesis by simp
      next
        case (2 v3 u3)
        with emit_preserves[where P = P, OF call did _ P5] show ?thesis by simp
      qed
    qed
  qed
  from run Resolve show ?thesis
    by (auto simp: open_resume_def catch_def split: option.splits prod.splits completion.splits
        dest: inner intro: did)
qed

lemma do_step_preserves:
  assumes call: "\<And>c w. P w \<Longrightarrow> P (fst (run_call E c w))"
    and did: "\<And>es w. P w \<Longrightarrow> P (did es w)"
    and reg: "\<And>S w. P w \<Longrightarrow> P (w\<lparr>pageHideListening := S\<rparr>)"
    and opened: "\<And>x w. P w \<Longrightarrow> P (w\<lparr>pipWindow := Some x, isOpen := True\<rparr>)"
    and closed: "\<And>w. P w \<Longrightarrow> P (w\<lparr>isOpen := False, pipWindow := None\<rparr>)"
    and step: "do_step E B a w = Some w'"
    and start: "P w"
  shows "P w'"
proof (cases a)
  case (DoOpen answer)
  show ?thesis
  proof (cases "open_begin E w")
    case (Pair w1 progress)
    have P1: "P w1" using call[OF start, of CallOpen] Pair by simp
    show ?thesis
    proof (cases progress)
      case (Resolved result)
      with step DoOpen Pair P1 show ?thesis by (auto simp: open_window_def world_after_def)
    next
      case Awaiting
      with step DoOpen Pair obtain c where "open_resume E B answer w1 = Some (w', c)"
        by (auto simp: open_window_def world_after_def)
      from open_resume_preserves[where P = P, OF call did reg opened this P1] show ?thesis .
    qed
  qed
next
  case DoOpenBegin
  with step call[OF start, of CallOpen] show ?thesis by auto
next
  case (DoOpenResume answer)
  with step obtain c where "open_resume E B answer w = Some (w', c)"
    by (auto simp: world_after_def)
  from open_resume_preserves[where P = P, OF call did reg opened this start] show ?thesis .
next
  case DoClose
  with step call[OF start, of CallClose] show ?thesis by auto
next
  case (DoResize a b)
  with step call[OF start, of "CallResize a b"] show ?thesis by auto
next
  case (DoResizeBy a b)
  with step call[OF start, of "CallResizeBy a b"] show ?thesis by auto
next
  case DoFocusOpener
  with step call[OF start, of CallFocusOpener] show ?thesis by auto
next
  case (DoCopyStylesToWindow x)
  with step call[OF start, of "CallCopyStylesToWindow x"] show ?thesis by auto
next
  case (DoUpdateOptions p)
  with step call[OF start, of "CallUpdateOptions p"] show ?thesis by auto
next
  case (DoOn ty l)
  with step call[OF start, of "CallOn ty l"] show ?thesis by auto
next
  case (DoOff ty l)
  with step call[OF start, of "CallOff ty l"] show ?thesis by auto
next
  case (DoUnsubscribe ty l)
  with step call[OF start, of "CallUnsubscribe ty l"] show ?thesis by auto
next
  case DoDispose
  with step call[OF start, of CallDispose] show ?thesis by auto
next
  case PageHideHandler
  with step obtain c where "handlePageHide E B w = Some (w', c)"
    by (auto simp: world_after_def)
  from handlePageHide_preserves[where P = P, OF call did this closed[OF start]] show ?thesis .
next
  case (EnterHandler x)
  with step obtain c where "handleEnter E B x w = Some (w', c)"
    by (auto simp: world_after_def)
  from handleEnter_preserves[where P = P, OF call did this opened[OF start]] show ?thesis .
next
  case (PageHideEvent x)
  show ?thesis
  proof (cases "x \<in> pageHideListening w")
    case True
    with step PageHideEvent obtain c where
      "handlePageHide E B (w\<lparr>pageHideListening := pageHideListening w - {x}\<rparr>) = Some (w', c)"
      by (auto simp: world_after_def fire_pagehide_def)
    from handlePageHide_preserves[where P = P, OF call did this closed[OF reg[OF start]]]
    show ?thesis .
  next
    case False
    with step PageHideEvent start show ?thesis by (auto simp: world_after_def fire_pagehide_def)
  qed
next
  case (EnterEvent x)
  show ?thesis
  proof (cases "enterListening w")
    case True
    with step EnterEvent obtain c where "handleEnter E B x w = Some (w', c)"
      by (auto simp: world_after_def fire_enter_def)
    from handleEnter_preserves[where P = P, OF call did this opened[OF start]] show ?thesis .
  next
    case False
    with step EnterEvent start show ?thesis by (auto simp: world_after_def fire_enter_def)
  qed
qed

lemma run_preserves:
  assumes call: "\<And>E c w. P w \<Longrightarrow> P (fst (run_call E c w))"
    and did: "\<And>es w. P w \<Longrightarrow> P (did es w)"
    and reg: "\<And>S w. P w \<Longrightarrow> P (w\<lparr>pageHideListening := S\<rparr>)"
    and opened: "\<And>x w. P w \<Longrightarrow> P (w\<lparr>pipWindow := Some x, isOpen := True\<rparr>)"
    and closed: "\<And>w. P w \<Longrightarrow> P (w\<lparr>isOpen := False, pipWindow := None\<rparr>)"
  shows "run steps w = Some w' \<Longrightarrow> P w \<Longrightarrow> P w'"
proof (induction steps arbitrary: w)
  case Nil
  then show ?case by simp
next
  case (Cons s steps)
  obtain E B a where s: "s = (E, B, a)" by (cases s) auto
  from Cons.prems(1) s obtain w1 where
    st: "do_step E B a w = Some w1" and rest: "run steps w1 = Some w'"
    by (auto split: option.splits)
  from do_step_preserves[where P = P, OF call did reg opened closed st Cons.prems(2)]
  have "P w1" .
  from Cons.IH[OF rest this] show ?case .
qed

lemma run_call_consistent: "consistent w \<Longrightarrow> consistent (fst (run_call E c w))"
  by (cases c) (auto simp: consistent_def method_defs Let_def split: option.splits)

lemma set_add_distinct: "distinct (live es) \<Longrightarrow> distinct (live (set_add l es))"
  by (simp add: set_add_def set_live)

lemma set_delete_distinct: "distinct (live es) \<Longrightarrow> distinct (live (set_delete l es))"
  by (simp add: live_set_delete)

lemma run_call_distinct:
  "(\<forall>r. distinct (live (setStore w r))) \<Longrightarrow> (\<forall>r. distinct (live (setStore (fst (run_call E c w)) r)))"
  by (cases c)
     (auto simp: method_defs Let_def set_add_distinct set_delete_distinct split: option.splits)

lemma reachable_sets_distinct:
  assumes "run steps (construct E opts hs) = Some w"
  shows "distinct (live (setStore w r))"
proof -
  have "\<forall>r. distinct (live (setStore w r))"
    by (rule run_preserves[where P = "\<lambda>w. \<forall>r. distinct (live (setStore w r))", OF _ _ _ _ _ assms])
       (simp_all add: run_call_distinct did_def construct_def)
  then show ?thesis by simp
qed




lemma run_call_closed:
  "pipWindow w = None \<and> \<not> isOpen w \<Longrightarrow>
     pipWindow (fst (run_call E c w)) = None \<and> \<not> isOpen (fst (run_call E c w))"
  by (cases c) (auto simp: method_defs Let_def split: option.splits)

lemma emit_closed:
  assumes "emit E B ty w = Some (w', c)" and "pipWindow w = None \<and> \<not> isOpen w"
  shows "pipWindow w' = None \<and> \<not> isOpen w'"
  by (rule emit_preserves[where P = "\<lambda>w. pipWindow w = None \<and> \<not> isOpen w", OF _ _ assms])
     (simp_all add: run_call_closed did_def)

lemma handlePageHide_closed:
  assumes "handlePageHide E B w = Some (w', c)"
  shows "pipWindow w' = None \<and> \<not> isOpen w'"
proof -
  let ?w0 = "w\<lparr>isOpen := False, pipWindow := None\<rparr>"
  let ?P = "\<lambda>w. pipWindow w = None \<and> \<not> isOpen w"
  obtain w1 c1 where oc: "call_onClose E B ?w0 = (w1, c1)" by fastforce
  have P1: "?P w1"
  proof (cases "onClose (options ?w0)")
    case None
    with oc show ?thesis by (auto simp: call_onClose_def)
  next
    case (Some f)
    have "?P (fst (run_script E (onClose_body B f) (did [OnCloseCalled f] ?w0)))"
      by (rule run_script_preserves[where P = ?P]) (simp_all add: run_call_closed did_def)
    with oc Some show ?thesis by (simp add: call_onClose_def)
  qed
  from assms oc have "and_then (Some (w1, c1)) (\<lambda>w1. and_then (emit E B EvClose w1) (emit E B EvStatechange)) = Some (w', c)"
    by (simp add: handlePageHide_def)
  then show ?thesis
  proof (cases rule: and_then_SomeD)
    case (1 w1')
    with P1 show ?thesis by simp
  next
    case (2 w1' u)
    from 2(2) show ?thesis
    proof (cases rule: and_then_SomeD)
      case (1 w2)
      with emit_closed[OF 1(1)] P1 2(1) show ?thesis by simp
    next
      case (2 w2 u2)
      from emit_closed[OF 2(1)] P1 \<open>Some (w1, c1) = Some (w1', Return u)\<close> have "?P w2" by simp
      from emit_closed[OF 2(2) this] show ?thesis .
    qed
  qed
qed




subsection \<open>Facts about the concrete inputs\<close>






lemma example_capability: "capability_present example_env"
  by (simp add: concrete_defs)

lemma fresh_opens:
  "open_window example_env idle_bodies (Resolve 7) fresh_controller
     = Some (opened_controller, Return (Some 7))"
  by (simp add: opened_controller_def open_defs open_begin_def did_def copyStylesToWindow_def
      concrete_defs fun_upd_idem)

lemma opened_fields:
  "pipWindow opened_controller = Some 7" "isOpen opened_controller"
  "pageHideListening opened_controller = {7}" "listeners opened_controller = (\<lambda>ty. None)"
  "onClose (options opened_controller) = None"
  by (simp_all add: opened_controller_def concrete_defs)





section \<open>Properties of the style replicator\<close>

lemma copy_stylesheet_spec: "copy_stylesheet s head = head @ spec_contribution s"
  by (cases "href s")
     (auto simp: copy_stylesheet_def spec_contribution_def readable_def has_href_def
           split: option.splits)

section \<open>The claims\<close>

text \<open>
  Claim C8. For every stylesheet list of the source document and every target head, the
  replicator returns the old head followed, in document order, by the contribution of each
  stylesheet: one inline style element (the rule texts joined by a newline) for a readable
  stylesheet, one link element with rel "stylesheet", the href and the media qualifier (only
  when non-empty) for an unreadable stylesheet with an href, and nothing for an unreadable
  stylesheet without one. The old head is a prefix of the result, so nothing in it is removed
  or altered.
\<close>

theorem copyDocumentStylesToWindow_appends:
  "copyDocumentStylesToWindow sheets head = head @ concat (map spec_contribution sheets)"
  by (induction sheets arbitrary: head) (simp_all add: copy_stylesheet_spec)

text \<open>
  The example of the specification, with a third stylesheet that is unreadable and has no
  href, copied into a head that already holds one element.
\<close>

theorem copyDocumentStylesToWindow_appends_witness:
  "copyDocumentStylesToWindow example_sheets [StyleElement ''body{margin:0}'']
     = [StyleElement ''body{margin:0}'',
        StyleElement (''.a{color:red}'' @ [CHR 0x0A] @ ''.b{color:blue}''),
        LinkElement ''stylesheet'' ''https://cdn.example/x.css'' (Some ''print'')]"
  using copyDocumentStylesToWindow_appends[of example_sheets "[StyleElement ''body{margin:0}'']"]
  by (simp add: example_sheets_def spec_contribution_def readable_def has_href_def)

text \<open>
  Claim C4. On a closed controller in an environment with the capability, when the platform
  rejects the request, \<^verbatim>\<open>open()\<close> returns \<^verbatim>\<open>undefined\<close> (it does not throw), \<open>pipWindow\<close> stays
  \<open>None\<close>, \<open>isOpen\<close> stays false, and nothing but the trace changes: it gains the request and
  the logged error. Whatever else has run between the request and its rejection, the
  rejection itself only logs the error.
\<close>

theorem open_rejected:
  assumes "capability_present E" and "pipWindow w = None" and "\<not> isOpen w"
  shows "(\<exists>w'. open_window E B Reject w = Some (w', Return None)
            \<and> pipWindow w' = None \<and> \<not> isOpen w'
            \<and> w' = w\<lparr>trace := trace w @
                  [RequestWindow \<lparr> ro_disallowReturnToOpener = disallowReturnToOpener (options w),
                                    ro_width = width (options w), ro_height = height (options w) \<rparr>,
                   ConsoleError]\<rparr>)
         \<and> open_resume E B Reject v = Some (v\<lparr>trace := trace v @ [ConsoleError]\<rparr>, Return None)"
  using assms by (simp add: open_window_def open_begin_def open_resume_def catch_def did_def)

text \<open>The rejected request on a fresh controller.\<close>

theorem open_rejected_witness:
  "capability_present example_env \<and> pipWindow fresh_controller = None \<and> \<not> isOpen fresh_controller
   \<and> result_of (open_window example_env idle_bodies Reject fresh_controller) = Some (Return None)
   \<and> map_option isOpen (world_after (open_window example_env idle_bodies Reject fresh_controller)) = Some False
   \<and> map_option pipWindow (world_after (open_window example_env idle_bodies Reject fresh_controller)) = Some None
   \<and> map_option trace (world_after (open_window example_env idle_bodies Reject fresh_controller))
       = Some [AddEnterListener,
               RequestWindow \<lparr> ro_disallowReturnToOpener = Some False, ro_width = None, ro_height = None \<rparr>,
               ConsoleError]"
proof -
  have h: "capability_present example_env" "pipWindow fresh_controller = None" "\<not> isOpen fresh_controller"
    by (simp_all add: concrete_defs)
  from open_rejected[OF h, of idle_bodies] h show ?thesis
    by (auto simp: result_of_def world_after_def concrete_defs)
qed

text \<open>
  Claim C7. A controller holds a window only where the capability exists. There, \<^verbatim>\<open>open()\<close>
  on a controller that holds window \<open>x\<close> returns \<open>x\<close> and leaves the whole world as it was,
  whatever the platform would have answered: no request, no style copy, no \<open>onOpen\<close>, no
  event, no change of state.
\<close>

theorem open_when_open:
  assumes "capability_present E" and "pipWindow w = Some x"
  shows "open_window E B answer w = Some (w, Return (Some x))"
  using assms by (simp add: open_window_def open_begin_def)

text \<open>Opening twice: the second call returns window 7 and changes nothing.\<close>

theorem open_when_open_witness:
  "capability_present example_env \<and> pipWindow opened_controller = Some 7
   \<and> world_after (open_window example_env idle_bodies (Resolve 7) fresh_controller) = Some opened_controller
   \<and> open_window example_env idle_bodies (Resolve 8) opened_controller
       = Some (opened_controller, Return (Some 7))"
  using open_when_open[OF example_capability opened_fields(1), of idle_bodies "Resolve 8"]
    example_capability opened_fields(1) fresh_opens
  by (simp add: world_after_def)

text \<open>
  Claim C9. \<^verbatim>\<open>close()\<close> changes neither \<open>pipWindow\<close> nor \<open>isOpen\<close>; it changes nothing but the
  trace, to which it appends one \<^verbatim>\<open>close()\<close> call on the held window, or nothing when no window
  is held. The transition to closed is made by the \<open>pagehide\<close> handler: whenever that handler
  returns or throws, with any user code in its callbacks, \<open>pipWindow\<close> is \<open>None\<close> and \<open>isOpen\<close>
  is false.
\<close>

theorem close_only_requests:
  "pipWindow (close w) = pipWindow w \<and> isOpen (close w) = isOpen w
   \<and> close w = w\<lparr>trace := trace w @ (case pipWindow w of None \<Rightarrow> [] | Some x \<Rightarrow> [WindowClose x])\<rparr>
   \<and> (handlePageHide E B w = Some (w', c) \<longrightarrow> pipWindow w' = None \<and> \<not> isOpen w')"
  using handlePageHide_closed[of E B w w' c]
  by (auto simp: close_def did_def split: option.splits)

text \<open>
  After \<^verbatim>\<open>close()\<close> the controller still holds window 7; the window's \<open>pagehide\<close> event then
  makes it closed. On a fresh controller \<^verbatim>\<open>close()\<close> does nothing.
\<close>

theorem close_only_requests_witness:
  "pipWindow (close opened_controller) = Some 7 \<and> isOpen (close opened_controller)
   \<and> trace (close opened_controller) = trace opened_controller @ [WindowClose 7]
   \<and> close fresh_controller = fresh_controller
   \<and> map_option pipWindow (world_after (fire_pagehide example_env idle_bodies 7 (close opened_controller)))
       = Some None
   \<and> map_option isOpen (world_after (fire_pagehide example_env idle_bodies 7 (close opened_controller)))
       = Some False"
proof -
  let ?w = "(close opened_controller)\<lparr>pageHideListening := pageHideListening (close opened_controller) - {7}\<rparr>"
  have run: "handlePageHide example_env idle_bodies ?w
               = Some (?w\<lparr>isOpen := False, pipWindow := None\<rparr>, Return ())"
    by (simp add: open_defs close_def did_def opened_fields)
  have fire: "fire_pagehide example_env idle_bodies 7 (close opened_controller)
               = handlePageHide example_env idle_bodies ?w"
    by (simp add: fire_pagehide_def close_def did_def opened_fields)
  from close_only_requests[of opened_controller example_env idle_bodies]
    close_only_requests[of ?w example_env idle_bodies "?w\<lparr>isOpen := False, pipWindow := None\<rparr>" "Return ()"]
    close_only_requests[of fresh_controller example_env idle_bodies]
    run fire opened_fields
  show ?thesis
    by (simp add: world_after_def concrete_defs)
qed

text \<open>
  Claim C6, as amended. A second \<^verbatim>\<open>dispose()\<close> in the same environment leaves every field as the
  first left it (\<open>pipWindow\<close> is \<open>None\<close>, \<open>isOpen\<close> is false, no listener is registered); it closes
  no window and removes no \<open>pagehide\<close> listener. Its only platform interaction is to repeat
  \<^verbatim>\<open>removeEventListener('enter', ...)\<close> on the capability object, when that object is present.
\<close>

theorem dispose_twice:
  "dispose E (dispose E w) =
     (if capability_present E then did [RemoveEnterListener] (dispose E w) else dispose E w)
   \<and> pipWindow (dispose E w) = None \<and> \<not> isOpen (dispose E w) \<and> listeners (dispose E w) = (\<lambda>ty. None)"
  by (auto simp: dispose_def did_def Let_def split: option.splits)

text \<open>Disposing twice a controller that holds window 7.\<close>

theorem dispose_twice_witness:
  "dispose example_env (dispose example_env opened_controller)
     = did [RemoveEnterListener] (dispose example_env opened_controller)
   \<and> trace (dispose example_env opened_controller)
       = trace opened_controller @ [RemovePageHideListener 7, WindowClose 7, RemoveEnterListener]
   \<and> pipWindow (dispose example_env (dispose example_env opened_controller)) = None
   \<and> \<not> isOpen (dispose example_env (dispose example_env opened_controller))"
  using dispose_twice[of example_env opened_controller] example_capability
  by (simp add: dispose_def did_def opened_fields)

text \<open>
  Claim C6 as stated fails: the second \<^verbatim>\<open>dispose()\<close> of a fresh controller makes a platform
  call, the removal of the \<open>enter\<close> listener.
\<close>

theorem dispose_twice_counterexample:
  "trace (dispose example_env (dispose example_env fresh_controller))
     = trace (dispose example_env fresh_controller) @ [RemoveEnterListener]"
  by (simp add: dispose_def did_def Let_def concrete_defs)




text \<open>
  Claim C3. A window is held if and only if \<open>isOpen\<close> is true: every step that returns
  (a public method, either half of \<^verbatim>\<open>open()\<close>, either event handler, either platform event),
  with any user code in its callbacks, takes a consistent world to a consistent world, and
  every world reached from the constructor by such steps is consistent.
\<close>

theorem window_iff_open:
  "(consistent w \<longrightarrow> do_step E B a w = Some w' \<longrightarrow> consistent w')
   \<and> (run steps (construct E0 opts hs) = Some w'' \<longrightarrow> consistent w'')"
proof (intro conjI impI)
  assume "consistent w" and "do_step E B a w = Some w'"
  then show "consistent w'"
    by (intro do_step_preserves[where P = consistent and w = w and w' = w' and E = E and B = B and a = a])
       (simp_all add: run_call_consistent, simp_all add: consistent_def did_def)
next
  assume "run steps (construct E0 opts hs) = Some w''"
  then show "consistent w''"
    by (rule run_preserves[where P = consistent, rotated -2])
       (simp_all add: run_call_consistent, simp_all add: consistent_def did_def construct_def)
qed

text \<open>
  One step from a fresh controller, and a run that subscribes, opens window 7, resizes,
  closes, sees the window's \<open>pagehide\<close> and then adopts window 8 from an \<open>enter\<close> event.
\<close>

theorem window_iff_open_witness:
  "consistent fresh_controller
   \<and> do_step example_env idle_bodies (DoOpen (Resolve 7)) fresh_controller = Some opened_controller
   \<and> consistent opened_controller
   \<and> map_option consistent (run example_run (construct example_env no_options empty_heads)) = Some True
   \<and> map_option pipWindow (run example_run (construct example_env no_options empty_heads)) = Some (Some 8)"
proof -
  have c0: "consistent fresh_controller"
    by (simp add: consistent_def concrete_defs)
  have st: "do_step example_env idle_bodies (DoOpen (Resolve 7)) fresh_controller = Some opened_controller"
    by (simp add: fresh_opens world_after_def)
  have "\<exists>w. run example_run (construct example_env no_options empty_heads) = Some w \<and> pipWindow w = Some 8"
    by (simp add: example_run_def open_defs method_defs emit_loop.simps set_add_def Let_def
        concrete_defs)
  then obtain w where
    r: "run example_run (construct example_env no_options empty_heads) = Some w" "pipWindow w = Some 8"
    by blast
  from window_iff_open[of fresh_controller example_env idle_bodies "DoOpen (Resolve 7)"
      opened_controller example_run example_env no_options empty_heads w] c0 st r
  show ?thesis by simp
qed

text \<open>
  Claim C5. Take an emit pass over the Set \<open>r\<close> of the kind \<open>ty\<close>, a Set that holds each
  listener once, where the body of every listener in it makes only quiet calls or
  unsubscribes that same listener (by \<^verbatim>\<open>off\<close> or by the function \<^verbatim>\<open>on\<close> returned). The pass
  returns without an error, and the listeners it invokes are exactly the listeners of the
  Set at the start of the pass, each once, in insertion order; \<open>pipWindow\<close>, \<open>isOpen\<close> and the
  map from kinds to Sets are as before.
\<close>

theorem emit_self_unsubscribe:
  assumes "listeners w ty = Some r"
    and "distinct (live (setStore w r))"
    and "\<forall>l\<in>set (live (setStore w r)). list_all (benign l) (listener_body B l (state E w))"
  shows "\<exists>w'. emit E B ty w = Some (w', Return ())
           \<and> invocations (trace w') =
               invocations (trace w) @ map (\<lambda>l. ListenerCalled l ty (state E w)) (live (setStore w r))
           \<and> pipWindow w' = pipWindow w \<and> isOpen w' = isOpen w \<and> listeners w' = listeners w"
  using emit_loop_benign[where i = 0 and w = w and r = r and B = B and st = "state E w" and E = E and ty = ty]
    assms
  by (auto simp: emit_def)

text \<open>
  Listeners 1, 2 and 3 are registered for \<open>open\<close>; 2 calls \<^verbatim>\<open>off('open', 2)\<close> and 3 calls the
  function returned by \<^verbatim>\<open>on('open', 3)\<close>. All three are invoked, and only 1 is left in the Set.
\<close>

theorem emit_self_unsubscribe_witness:
  "listeners three_listeners EvOpen = Some 0
   \<and> live (setStore three_listeners 0) = [1, 2, 3]
   \<and> result_of (emit example_env self_removing_bodies EvOpen three_listeners) = Some (Return ())
   \<and> map_option (\<lambda>w. invocations (trace w))
        (world_after (emit example_env self_removing_bodies EvOpen three_listeners))
       = Some (map (\<lambda>l. ListenerCalled l EvOpen \<lparr> s_isSupported = True, s_isOpen = False, s_pipWindow = None \<rparr>)
                 [1, 2, 3])
   \<and> map_option (\<lambda>w. live (setStore w 0))
        (world_after (emit example_env self_removing_bodies EvOpen three_listeners)) = Some [1]"
proof -
  have l: "listeners three_listeners EvOpen = Some 0"
    and s: "setStore three_listeners 0 = [Some 1, Some 2, Some 3]"
    and t: "trace three_listeners = [AddEnterListener]"
    and st: "state example_env three_listeners = \<lparr> s_isSupported = True, s_isOpen = False, s_pipWindow = None \<rparr>"
    by (simp_all add: three_listeners_def on_def Let_def set_add_def concrete_defs state_def)
  have d: "distinct (live (setStore three_listeners 0))" by (simp add: s)
  have b: "\<forall>l\<in>set (live (setStore three_listeners 0)).
             list_all (benign l) (listener_body self_removing_bodies l (state example_env three_listeners))"
    by (simp add: s self_removing_bodies_def benign_def)
  from emit_self_unsubscribe[OF l d b] obtain w' where
    run: "emit example_env self_removing_bodies EvOpen three_listeners = Some (w', Return ())" and
    inv: "invocations (trace w') = invocations (trace three_listeners) @
           map (\<lambda>l. ListenerCalled l EvOpen (state example_env three_listeners))
             (live (setStore three_listeners 0))"
    by blast
  have after: "map_option (\<lambda>w. live (setStore w 0))
        (world_after (emit example_env self_removing_bodies EvOpen three_listeners)) = Some [1]"
    by (simp add: emit_def l s st emit_loop.simps self_removing_bodies_def did_def off_def
        unsubscribe_def set_delete_def world_after_def)
  from run inv after l s t st show ?thesis
    by (simp add: result_of_def world_after_def invocations_def)
qed






end
